theory Spec2Isabelle
  imports Main "HOL-Library.Word" "HOL-Library.Multiset"
begin

section \<open>Data model of main.go\<close>

text \<open>
  \<^verbatim>\<open>common.Address\<close> is a 20-byte array and \<^verbatim>\<open>common.Hash\<close> a 32-byte array; both
  are read as big-endian words. The zero value \<^verbatim>\<open>common.Address{}\<close> is the word 0.
\<close>

type_synonym byte = "8 word"
type_synonym address = "160 word"
type_synonym hash = "256 word"

text \<open>
  \<^verbatim>\<open>common.HexToAddress(h.Hex())\<close> for a hash \<open>h\<close>: \<^verbatim>\<open>Hex\<close> renders the 32 bytes,
  \<^verbatim>\<open>HexToAddress\<close> parses them back and \<^verbatim>\<open>BytesToAddress\<close> keeps the last 20 bytes
  of a longer input. On the big-endian word that is the truncation to the low 160 bits.
\<close>

definition HexToAddress :: "hash \<Rightarrow> address" where
  "HexToAddress h = ucast h"

text \<open>\<^verbatim>\<open>types.Log\<close>, restricted to the two fields the program reads.\<close>

record Log =
  Topics :: "hash list"
  Data :: "byte list"

text \<open>\<^verbatim>\<open>Value\<close> is a \<^verbatim>\<open>*big.Int\<close>: \<open>None\<close> is the nil pointer of the zero value.\<close>

record TransferEvents =
  From :: address
  To :: address
  Value :: "int option"

text \<open>
  \<^verbatim>\<open>Count\<close> is a Go \<^verbatim>\<open>int\<close>. A counter is at most twice the number of log entries
  (lemma \<open>metric_le_twice_length\<close> below), which for a slice of logs that fits in memory
  is far below the largest \<^verbatim>\<open>int\<close>: the machine integer never wraps, and is modelled
  by \<open>int\<close>.
\<close>

record Metric =
  Address :: address
  Count :: int

text \<open>\<^verbatim>\<open>ethereum.FilterQuery\<close>, restricted to the fields the program sets; the bounds are
  \<^verbatim>\<open>*big.Int\<close>.\<close>

record FilterQuery =
  FromBlock :: int
  ToBlock :: int
  QueryTopics :: "hash list list"

text \<open>
  The errors of \<^verbatim>\<open>currentBlock\<close> and \<^verbatim>\<open>SortAddressesByCount\<close>, one constructor per
  \<^verbatim>\<open>fmt.Errorf\<close>; \<open>'e\<close> is the error of the library call that is wrapped.
\<close>

datatype 'e error =
    FailedHeader 'e
  | FailedFilterLogs 'e
  | FailedAbi 'e
  | NoLogsInMap

text \<open>What the program writes, one constructor per print statement.\<close>

datatype 'e event =
    ErrorUnpacking 'e
  | ErrorInCurrentBlock "'e error"
  | AddressUsed address int
  | LogFatal string

text \<open>How \<^verbatim>\<open>main\<close> ends: it returns, \<^verbatim>\<open>log.Fatal\<close> exits the process, or the runtime
  panics with \<^verbatim>\<open>index out of range [i] with length n\<close>.\<close>

datatype outcome =
    Returned
  | Exited
  | IndexOutOfRange nat nat

text \<open>
  The program's surroundings, as parameters: the results of the two remote calls of the
  client, of the environment and of the library functions, and the order in which the
  Go runtime yields the entries of a map to a \<^verbatim>\<open>range\<close> loop (unspecified by the
  language). \<open>abi_JSON\<close> is the result of parsing the constant event schema: an error, or
  the decoder that \<^verbatim>\<open>UnpackIntoInterface(&transferEvent, "Transfer", data)\<close> runs on the
  data payload, which yields the non-indexed field \<^verbatim>\<open>value\<close> or an error and leaves the
  fields \<^verbatim>\<open>From\<close> and \<^verbatim>\<open>To\<close> as they are.
\<close>

record 'e env =
  godotenv_Load :: "'e option"
  os_Getenv :: "string \<Rightarrow> string"
  DialContext :: "string \<Rightarrow> 'e option"
  HeaderByNumber :: "'e + int"
  Keccak256Hash :: "byte list \<Rightarrow> hash"
  FilterLogs :: "FilterQuery \<Rightarrow> 'e + Log list"
  abi_JSON :: "'e + (byte list \<Rightarrow> 'e + int)"
  mapRange :: "(address \<rightharpoonup> int) \<Rightarrow> (address \<times> int) list"

text \<open>
  \<open>kvs\<close> is a possible order of iteration over the Go map \<open>m\<close>: every key once, with its value.
\<close>

definition ranges :: "(address \<rightharpoonup> int) \<Rightarrow> (address \<times> int) list \<Rightarrow> bool" where
  "ranges m kvs = (distinct (map fst kvs) \<and> map_of kvs = m)"


section \<open>SortAddressesByCount\<close>

text \<open>
  \<^verbatim>\<open>sort.Slice(counters, less)\<close>. The library's sort is not stable: among entries that
  \<open>less\<close> does not order, any order may come out. The model is the stable insertion sort;
  the argument of \<open>SortAddressesByCount\<close> ranges over every iteration order of the map, and
  so (lemma \<open>every_sorted_order_possible\<close>) over every order of the ties.
\<close>

fun insertBy :: "('a \<Rightarrow> 'a \<Rightarrow> bool) \<Rightarrow> 'a \<Rightarrow> 'a list \<Rightarrow> 'a list" where
  "insertBy lt x [] = [x]"
| "insertBy lt x (y # ys) = (if lt y x then y # insertBy lt x ys else x # y # ys)"

definition sort_Slice :: "('a \<Rightarrow> 'a \<Rightarrow> bool) \<Rightarrow> 'a list \<Rightarrow> 'a list" where
  "sort_Slice lt xs = foldr (insertBy lt) xs []"

text \<open>The \<^verbatim>\<open>range logsMap\<close> loop (lines 120 to 124), over the entries as the runtime yields them.\<close>

primrec rangeLogsMap :: "(address \<times> int) list \<Rightarrow> Metric list \<Rightarrow> Metric list" where
  "rangeLogsMap [] counters = counters"
| "rangeLogsMap (kv # rest) counters =
     rangeLogsMap rest
       (if fst kv \<noteq> 0 then counters @ [\<lparr>Address = fst kv, Count = snd kv\<rparr>] else counters)"

text \<open>
  The map argument is given by its entries in iteration order, so \<^verbatim>\<open>len(logsMap)\<close> is the
  length of that list. The nil slice returned beside an error is not part of the result.
\<close>

definition SortAddressesByCount :: "(address \<times> int) list \<Rightarrow> 'e error + Metric list" where
  "SortAddressesByCount logsMap =
     (if length logsMap = 0 then Inl NoLogsInMap
      else Inr (sort_Slice (\<lambda>a b. Count a > Count b) (rangeLogsMap logsMap [])))"


section \<open>currentBlock\<close>

text \<open>Reading a Go map: \<^verbatim>\<open>metric[a]\<close> is the zero value when the key is missing.\<close>

definition lookup :: "(address \<rightharpoonup> int) \<Rightarrow> address \<Rightarrow> int" where
  "lookup m a = (case m a of None \<Rightarrow> 0 | Some c \<Rightarrow> c)"

text \<open>\<^verbatim>\<open>metric[a]++\<close>.\<close>

definition incr :: "(address \<rightharpoonup> int) \<Rightarrow> address \<Rightarrow> (address \<rightharpoonup> int)" where
  "incr m a = m(a \<mapsto> lookup m a + 1)"

text \<open>The state of the decode loop: the map \<^verbatim>\<open>metric\<close> and what has been printed.\<close>

record 'e loop_state =
  metric :: "address \<rightharpoonup> int"
  printed :: "'e event list"

text \<open>Lines 96 to 104: the transfer event of a log entry with three topics, or the decode error.\<close>

definition decode :: "(byte list \<Rightarrow> 'e + int) \<Rightarrow> Log \<Rightarrow> 'e + TransferEvents" where
  "decode unpack vLog =
     (let transferEvent = \<lparr>From = HexToAddress (Topics vLog ! 1),
                           To = HexToAddress (Topics vLog ! 2),
                           Value = None\<rparr>
      in case unpack (Data vLog) of
           Inl err \<Rightarrow> Inl err
         | Inr v \<Rightarrow> Inr (transferEvent\<lparr>Value := Some v\<rparr>))"

text \<open>One iteration of the loop over the logs (lines 92 to 107).\<close>

definition loopBody :: "(byte list \<Rightarrow> 'e + int) \<Rightarrow> 'e loop_state \<Rightarrow> Log \<Rightarrow> 'e loop_state" where
  "loopBody unpack s vLog =
     (if length (Topics vLog) \<noteq> 3 \<or> length (Data vLog) = 0 then s
      else case decode unpack vLog of
             Inl err \<Rightarrow> s\<lparr>printed := printed s @ [ErrorUnpacking err]\<rparr>
           | Inr transferEvent \<Rightarrow>
               s\<lparr>metric := incr (incr (metric s) (From transferEvent)) (To transferEvent)\<rparr>)"

primrec rangeLogs :: "(byte list \<Rightarrow> 'e + int) \<Rightarrow> 'e loop_state \<Rightarrow> Log list \<Rightarrow> 'e loop_state" where
  "rangeLogs unpack s [] = s"
| "rangeLogs unpack s (vLog # logs) = rangeLogs unpack (loopBody unpack s vLog) logs"

text \<open>Lines 89 to 108: the loop from the empty map.\<close>

definition aggregate :: "(byte list \<Rightarrow> 'e + int) \<Rightarrow> Log list \<Rightarrow> 'e loop_state" where
  "aggregate unpack logs = rangeLogs unpack \<lparr>metric = Map.empty, printed = []\<rparr> logs"

definition transferEventSignature :: "byte list" where
  "transferEventSignature = map (\<lambda>c. of_nat (of_char c)) ''Transfer(address,address,uint256)''"

text \<open>Lines 64 to 76: the query, from the number of the latest block.\<close>

definition query :: "'e env \<Rightarrow> int \<Rightarrow> FilterQuery" where
  "query E latestBlockNumber =
     (let blockNumber = latestBlockNumber - 99;
          transferEventHash = Keccak256Hash E transferEventSignature
      in \<lparr>FromBlock = blockNumber, ToBlock = latestBlockNumber,
          QueryTopics = [[transferEventHash]]\<rparr>)"

text \<open>\<^verbatim>\<open>currentBlock\<close> returns what it printed and its result.\<close>

definition currentBlock :: "'e env \<Rightarrow> 'e event list \<times> ('e error + Metric list)" where
  "currentBlock E =
     (case HeaderByNumber E of
        Inl err \<Rightarrow> ([], Inl (FailedHeader err))
      | Inr latestBlockNumber \<Rightarrow>
          (case FilterLogs E (query E latestBlockNumber) of
             Inl err \<Rightarrow> ([], Inl (FailedFilterLogs err))
           | Inr logs \<Rightarrow>
               (case abi_JSON E of
                  Inl err \<Rightarrow> ([], Inl (FailedAbi err))
                | Inr unpack \<Rightarrow>
                    (let s = aggregate unpack logs
                     in (printed s, SortAddressesByCount (mapRange E (metric s)))))))"


section \<open>main\<close>

text \<open>The print loop of lines 52 to 54, from index \<open>i\<close>; indexing past the end of the slice panics.\<close>

function printLoop :: "Metric list \<Rightarrow> nat \<Rightarrow> 'e event list \<Rightarrow> 'e event list \<times> outcome" where
  "printLoop metrics i out =
     (if i < 5 then
        (if i < length metrics
         then printLoop metrics (i + 1)
                (out @ [AddressUsed (Address (metrics ! i)) (Count (metrics ! i))])
         else (out, IndexOutOfRange i (length metrics)))
      else (out, Returned))"
  by pat_completeness auto
termination
  by (relation "measure (\<lambda>(metrics, i, out). 5 - i)") auto

text \<open>Lines 47 to 54. The slice returned beside an error is nil, of length 0.\<close>

definition report :: "'e env \<Rightarrow> 'e event list \<times> outcome" where
  "report E =
     (case currentBlock E of
        (out, Inl err) \<Rightarrow> printLoop [] 0 (out @ [ErrorInCurrentBlock err])
      | (out, Inr metrics) \<Rightarrow> printLoop metrics 0 out)"

definition main :: "'e env \<Rightarrow> 'e event list \<times> outcome" where
  "main E =
     (case godotenv_Load E of
        Some err \<Rightarrow> ([LogFatal ''error loading .env file''], Exited)
      | None \<Rightarrow>
          (let apiKey = os_Getenv E ''ETH_API_KEY'';
               url = ''https://go.getblock.io/'' @ apiKey
           in case DialContext E url of
                Some err \<Rightarrow> ([LogFatal ''error in dialing Ethereum client''], Exited)
              | None \<Rightarrow> report E))"

section \<open>Notions used to state the properties\<close>

text \<open>Every counter that the map holds is at least 1.\<close>

definition positive :: "(address \<rightharpoonup> int) \<Rightarrow> bool" where
  "positive m = (\<forall>a c. m a = Some c \<longrightarrow> 1 \<le> c)"


text \<open>
  A well-formed transfer record from \<open>f\<close> to \<open>t\<close>: a log entry that passes the checks of
  line 92 and whose data payload decodes.
\<close>

definition isTransfer :: "(byte list \<Rightarrow> 'e + int) \<Rightarrow> Log \<Rightarrow> address \<Rightarrow> address \<Rightarrow> bool" where
  "isTransfer unpack vLog f t =
     (length (Topics vLog) = 3 \<and> length (Data vLog) \<noteq> 0 \<and>
      (case decode unpack vLog of Inl err \<Rightarrow> False | Inr ev \<Rightarrow> From ev = f \<and> To ev = t))"

text \<open>
  Example inputs, at which the theorems below are instantiated: a decoder that fails on a
  payload shorter than one 32-byte word, the log entry of a transfer between two addresses,
  and an environment whose node is at block 1000, returns the given logs, and whose runtime
  iterates over the map in the given order.
\<close>

definition example_unpack :: "byte list \<Rightarrow> unit + int" where
  "example_unpack data = (if length data < 32 then Inl () else Inr 0)"

definition example_log :: "address \<Rightarrow> address \<Rightarrow> Log" where
  "example_log f t = \<lparr>Topics = [9, ucast f, ucast t], Data = replicate 32 0\<rparr>"

definition example_env :: "Log list \<Rightarrow> (address \<times> int) list \<Rightarrow> unit env" where
  "example_env logs order =
     \<lparr>godotenv_Load = None, os_Getenv = (\<lambda>name. ''key''), DialContext = (\<lambda>url. None),
      HeaderByNumber = Inr 1000, Keccak256Hash = (\<lambda>bytes. 9),
      FilterLogs = (\<lambda>q. Inr logs), abi_JSON = Inr example_unpack,
      mapRange = (\<lambda>m. order)\<rparr>"


section \<open>Properties of the ranking step\<close>

lemma rangeLogsMap_filter:
  "rangeLogsMap kvs counters =
     counters @ map (\<lambda>kv. \<lparr>Address = fst kv, Count = snd kv\<rparr>) (filter (\<lambda>kv. fst kv \<noteq> 0) kvs)"
  by (induction kvs arbitrary: counters) simp_all

lemma set_insertBy: "set (insertBy lt x xs) = insert x (set xs)"
  by (induction xs) auto

lemma set_sort_Slice: "set (sort_Slice lt xs) = set xs"
  by (induction xs) (simp_all add: sort_Slice_def set_insertBy)

lemma mset_insertBy: "mset (insertBy lt x xs) = add_mset x (mset xs)"
  by (induction xs) simp_all

lemma mset_sort_Slice: "mset (sort_Slice lt xs) = mset xs"
  by (induction xs) (simp_all add: sort_Slice_def mset_insertBy)

lemma sorted_insertBy:
  "sorted_wrt (\<lambda>a b. Count b \<le> Count a) xs \<Longrightarrow>
   sorted_wrt (\<lambda>a b. Count b \<le> Count a) (insertBy (\<lambda>a b. Count a > Count b) x xs)"
  by (induction xs) (auto simp: set_insertBy)

lemma sorted_sort_Slice:
  "sorted_wrt (\<lambda>a b. Count b \<le> Count a) (sort_Slice (\<lambda>a b. Count a > Count b) xs)"
  by (induction xs) (simp_all add: sort_Slice_def sorted_insertBy)

lemma insertBy_front: "\<forall>y \<in> set ys. \<not> lt y x \<Longrightarrow> insertBy lt x ys = x # ys"
  by (cases ys) simp_all

lemma sort_Slice_sorted:
  "sorted_wrt (\<lambda>a b. \<not> lt b a) xs \<Longrightarrow> sort_Slice lt xs = xs"
proof (induction xs)
  case Nil
  show ?case by (simp add: sort_Slice_def)
next
  case (Cons x xs)
  then have "sort_Slice lt xs = xs" and "\<forall>y \<in> set xs. \<not> lt y x"
    by simp_all
  then show ?case
    by (simp add: sort_Slice_def insertBy_front)
qed

section \<open>Properties of the decode loop\<close>

lemma rangeLogs_append:
  "rangeLogs unpack s (xs @ ys) = rangeLogs unpack (rangeLogs unpack s xs) ys"
  by (induction xs arbitrary: s) simp_all

lemma loopBody_malformed:
  "length (Topics vLog) \<noteq> 3 \<or> Data vLog = [] \<Longrightarrow> loopBody unpack s vLog = s"
  by (auto simp: loopBody_def)

lemma loopBody_unpack_error:
  "length (Topics vLog) = 3 \<Longrightarrow> Data vLog \<noteq> [] \<Longrightarrow> unpack (Data vLog) = Inl err \<Longrightarrow>
   loopBody unpack s vLog = s\<lparr>printed := printed s @ [ErrorUnpacking err]\<rparr>"
  by (simp add: loopBody_def decode_def)

lemma loopBody_transfer:
  "length (Topics vLog) = 3 \<Longrightarrow> Data vLog \<noteq> [] \<Longrightarrow> unpack (Data vLog) = Inr v \<Longrightarrow>
   loopBody unpack s vLog =
     s\<lparr>metric := incr (incr (metric s) (HexToAddress (Topics vLog ! 1)))
                     (HexToAddress (Topics vLog ! 2))\<rparr>"
  by (simp add: loopBody_def decode_def)

lemma lookup_incr: "lookup (incr m a) b = lookup m b + (if b = a then 1 else 0)"
  by (simp add: incr_def lookup_def)

lemma metric_loopBody_cong:
  "metric s = metric s' \<Longrightarrow> metric (loopBody unpack s vLog) = metric (loopBody unpack s' vLog)"
  by (simp add: loopBody_def split: sum.splits)

lemma metric_rangeLogs_cong:
  "metric s = metric s' \<Longrightarrow> metric (rangeLogs unpack s logs) = metric (rangeLogs unpack s' logs)"
proof (induction logs arbitrary: s s')
  case Nil
  then show ?case by simp
next
  case (Cons vLog logs)
  from Cons.prems have "metric (loopBody unpack s vLog) = metric (loopBody unpack s' vLog)"
    by (rule metric_loopBody_cong)
  then have "metric (rangeLogs unpack (loopBody unpack s vLog) logs)
               = metric (rangeLogs unpack (loopBody unpack s' vLog) logs)"
    by (rule Cons.IH)
  then show ?case by simp
qed

lemma printed_loopBody:
  "\<exists>new. \<forall>s. printed (loopBody unpack s vLog) = printed s @ new"
proof (cases "length (Topics vLog) \<noteq> 3 \<or> Data vLog = []")
  case True
  then have "\<forall>s. printed (loopBody unpack s vLog) = printed s @ []"
    by (simp add: loopBody_malformed)
  then show ?thesis ..
next
  case False
  show ?thesis
  proof (cases "unpack (Data vLog)")
    case (Inl err)
    with False have "\<forall>s. printed (loopBody unpack s vLog) = printed s @ [ErrorUnpacking err]"
      by (simp add: loopBody_unpack_error)
    then show ?thesis ..
  next
    case (Inr v)
    with False have "\<forall>s. printed (loopBody unpack s vLog) = printed s @ []"
      by (simp add: loopBody_transfer)
    then show ?thesis ..
  qed
qed

lemma printed_rangeLogs:
  "printed (rangeLogs unpack s logs) = printed s @ printed (aggregate unpack logs)"
proof (induction logs arbitrary: s)
  case Nil
  show ?case by (simp add: aggregate_def)
next
  case (Cons vLog logs)
  obtain new where new: "\<And>s. printed (loopBody unpack s vLog) = printed s @ new"
    using printed_loopBody [of unpack vLog] by blast
  have "printed (rangeLogs unpack s (vLog # logs))
          = printed (loopBody unpack s vLog) @ printed (aggregate unpack logs)"
    by (simp add: Cons.IH)
  also have "\<dots> = printed s @ new @ printed (aggregate unpack logs)"
    by (simp add: new)
  also have "new @ printed (aggregate unpack logs) = printed (aggregate unpack (vLog # logs))"
    using Cons.IH [of "loopBody unpack \<lparr>metric = Map.empty, printed = []\<rparr> vLog"]
    by (simp add: aggregate_def new)
  finally show ?case .
qed

lemma lookup_nonneg: "positive m \<Longrightarrow> 0 \<le> lookup m a"
proof (cases "m a")
  case None
  then show ?thesis by (simp add: lookup_def)
next
  case (Some c)
  assume "positive m"
  with Some have "1 \<le> c" by (simp add: positive_def)
  with Some show ?thesis by (simp add: lookup_def)
qed

lemma positive_incr: "positive m \<Longrightarrow> positive (incr m a)"
  using lookup_nonneg [of m a] by (auto simp: positive_def incr_def)

lemma positive_loopBody: "positive (metric s) \<Longrightarrow> positive (metric (loopBody unpack s vLog))"
  by (auto simp: loopBody_def positive_incr split: sum.splits)

lemma positive_rangeLogs: "positive (metric s) \<Longrightarrow> positive (metric (rangeLogs unpack s logs))"
  by (induction logs arbitrary: s) (simp_all add: positive_loopBody)

lemma positive_aggregate: "positive (metric (aggregate unpack logs))"
proof -
  have "positive (metric \<lparr>metric = Map.empty, printed = ([] :: 'a event list)\<rparr>)"
    by (simp add: positive_def)
  then show ?thesis
    unfolding aggregate_def by (rule positive_rangeLogs)
qed

lemma lookup_loopBody_le: "lookup (metric (loopBody unpack s vLog)) a \<le> lookup (metric s) a + 2"
  by (auto simp: loopBody_def lookup_incr split: sum.splits)

lemma lookup_rangeLogs_le:
  "lookup (metric (rangeLogs unpack s logs)) a \<le> lookup (metric s) a + 2 * int (length logs)"
proof (induction logs arbitrary: s)
  case Nil
  show ?case by simp
next
  case (Cons vLog logs)
  have "lookup (metric (rangeLogs unpack s (vLog # logs))) a
          \<le> lookup (metric (loopBody unpack s vLog)) a + 2 * int (length logs)"
    using Cons.IH [of "loopBody unpack s vLog"] by simp
  also have "\<dots> \<le> lookup (metric s) a + 2 + 2 * int (length logs)"
    using lookup_loopBody_le [of unpack s vLog a] by simp
  finally show ?case by simp
qed

lemma metric_le_twice_length:
  "lookup (metric (aggregate unpack logs)) a \<le> 2 * int (length logs)"
  using lookup_rangeLogs_le [of unpack "\<lparr>metric = Map.empty, printed = []\<rparr>" logs a]
  by (simp add: aggregate_def lookup_def)

lemma ranges_set: "ranges m kvs \<Longrightarrow> (k, v) \<in> set kvs \<longleftrightarrow> m k = Some v"
  by (auto simp: ranges_def)

lemma ranges_distinct: "ranges m kvs \<Longrightarrow> distinct kvs"
  by (simp add: ranges_def distinct_map)

lemma ranges_mset: "ranges m kvs \<Longrightarrow> ranges m kvs' \<Longrightarrow> mset kvs = mset kvs'"
proof -
  assume a: "ranges m kvs" and b: "ranges m kvs'"
  have "set kvs = set kvs'"
    using ranges_set [OF a] ranges_set [OF b] by auto
  with ranges_distinct [OF a] ranges_distinct [OF b] show ?thesis
    by (simp add: set_eq_iff_mset_eq_distinct)
qed

text \<open>\<^verbatim>\<open>len(logsMap) == 0\<close> on the entries is emptiness of the map.\<close>

lemma ranges_empty: "ranges m kvs \<Longrightarrow> kvs = [] \<longleftrightarrow> m = Map.empty"
  by (auto simp: ranges_def)

lemma loopBody_isTransfer:
  "isTransfer unpack vLog f t \<Longrightarrow> loopBody unpack s vLog = s\<lparr>metric := incr (incr (metric s) f) t\<rparr>"
  by (auto simp: isTransfer_def loopBody_def split: sum.splits)

section \<open>Iteration orders of the map\<close>

lemma mset_counters:
  "mset kvs = mset kvs' \<Longrightarrow> mset (rangeLogsMap kvs []) = mset (rangeLogsMap kvs' [])"
proof -
  assume "mset kvs = mset kvs'"
  then have "mset (filter (\<lambda>kv. fst kv \<noteq> 0) kvs) = mset (filter (\<lambda>kv. fst kv \<noteq> 0) kvs')"
    by simp
  then have "image_mset (\<lambda>kv. \<lparr>Address = fst kv, Count = snd kv\<rparr>) (mset (filter (\<lambda>kv. fst kv \<noteq> 0) kvs))
           = image_mset (\<lambda>kv. \<lparr>Address = fst kv, Count = snd kv\<rparr>) (mset (filter (\<lambda>kv. fst kv \<noteq> 0) kvs'))"
    by (rule arg_cong)
  then show ?thesis by (simp add: rangeLogsMap_filter)
qed

lemma ranked_set:
  assumes "ranges m logsMap" and "SortAddressesByCount logsMap = Inr ranked"
  shows "r \<in> set ranked \<longleftrightarrow> Address r \<noteq> 0 \<and> m (Address r) = Some (Count r)"
proof -
  from assms(2) have "ranked = sort_Slice (\<lambda>a b. Count a > Count b) (rangeLogsMap logsMap [])"
    by (simp add: SortAddressesByCount_def split: if_splits)
  then have "set ranked = (\<lambda>kv. \<lparr>Address = fst kv, Count = snd kv\<rparr>) ` {kv \<in> set logsMap. fst kv \<noteq> 0}"
    by (simp add: set_sort_Slice rangeLogsMap_filter)
  then have S: "set ranked = (\<lambda>kv. \<lparr>Address = fst kv, Count = snd kv\<rparr>) ` {kv \<in> set logsMap. fst kv \<noteq> 0}" .
  have "r \<in> set ranked \<longleftrightarrow> (Address r, Count r) \<in> set logsMap \<and> Address r \<noteq> 0"
  proof
    assume "r \<in> set ranked"
    then obtain kv where kv: "kv \<in> set logsMap" "fst kv \<noteq> 0"
      and r: "r = \<lparr>Address = fst kv, Count = snd kv\<rparr>"
      unfolding S by blast
    from r have "(Address r, Count r) = kv" by simp
    with kv r show "(Address r, Count r) \<in> set logsMap \<and> Address r \<noteq> 0" by simp
  next
    assume a: "(Address r, Count r) \<in> set logsMap \<and> Address r \<noteq> 0"
    show "r \<in> set ranked"
      unfolding S by (rule image_eqI [where x = "(Address r, Count r)"]) (use a in simp_all)
  qed
  then show ?thesis
    using ranges_set [OF assms(1), of "Address r" "Count r"] by blast
qed

lemma sorted_desc_counts_eq:
  assumes "mset xs = mset ys"
    and "sorted_wrt (\<lambda>a b. Count b \<le> Count a) xs"
    and "sorted_wrt (\<lambda>a b. Count b \<le> Count a) ys"
  shows "map Count xs = map Count ys"
proof -
  have s: "sorted (map (\<lambda>r. - Count r) zs)" if "sorted_wrt (\<lambda>a b. Count b \<le> Count a) zs" for zs
    using that by (simp add: sorted_map sorted_wrt_mono_rel [of zs "\<lambda>a b. Count b \<le> Count a"])
  from assms(1) have "image_mset (\<lambda>r. - Count r) (mset xs) = image_mset (\<lambda>r. - Count r) (mset ys)"
    by (rule arg_cong)
  then have "mset (map (\<lambda>r. - Count r) xs) = mset (map (\<lambda>r. - Count r) ys)"
    by simp
  then have "map (\<lambda>r. - Count r) xs = map (\<lambda>r. - Count r) ys"
    using s [OF assms(2)] s [OF assms(3)] by (metis properties_for_sort)
  then have "map uminus (map (\<lambda>r. - Count r) xs) = map uminus (map (\<lambda>r. - Count r) ys)"
    by simp
  then show ?thesis
    by (simp add: comp_def)
qed

lemma mset_pair:
  assumes "mset xs = {#a, b#}"
  shows "xs = [a, b] \<or> xs = [b, a]"
proof -
  from assms have "length xs = 2"
    by (metis size_mset size_add_mset size_empty numeral_2_eq_2)
  then obtain x y where xs: "xs = [x, y]"
    by (auto simp: length_Suc_conv numeral_2_eq_2)
  with assms show ?thesis
    by (auto simp: add_eq_conv_ex)
qed

text \<open>
  The model of \<^verbatim>\<open>sort.Slice\<close> loses no behaviour: every descending arrangement of the
  counters is the result for some iteration order of the same map.
\<close>

lemma ranges_mset_iff:
  assumes "ranges m kvs" and "mset kvs' = mset kvs"
  shows "ranges m kvs'"
proof -
  from assms(2) have "image_mset fst (mset kvs') = image_mset fst (mset kvs)"
    by simp
  then have "mset (map fst kvs') = mset (map fst kvs)"
    by simp
  then have d: "distinct (map fst kvs')"
    using assms(1) by (metis ranges_def mset_eq_imp_distinct_iff)
  from assms(2) have "set kvs' = set kvs"
    by (rule mset_eq_setD)
  with d assms(1) have "map_of kvs' = map_of kvs"
    using map_of_inject_set [of kvs' kvs] by (simp add: ranges_def)
  with d assms(1) show ?thesis
    by (simp add: ranges_def)
qed

lemma every_sorted_order_possible:
  assumes "ranges m kvs" and "kvs \<noteq> []"
    and "mset ranked = mset (rangeLogsMap kvs [])"
    and "sorted_wrt (\<lambda>a b. Count b \<le> Count a) ranked"
  shows "\<exists>kvs'. ranges m kvs' \<and> SortAddressesByCount kvs' = (Inr ranked :: 'e error + Metric list)"
proof -
  define entry where "entry = (\<lambda>r :: Metric. (Address r, Count r))"
  define mk where "mk = (\<lambda>kv :: address \<times> int. \<lparr>Address = fst kv, Count = snd kv\<rparr>)"
  define kvs' where "kvs' = map entry ranked @ filter (\<lambda>kv. fst kv = 0) kvs"
  have ranked: "mset ranked = image_mset mk (mset (filter (\<lambda>kv. fst kv \<noteq> 0) kvs))"
    using assms(3) by (simp add: rangeLogsMap_filter mk_def)
  then have "image_mset entry (mset ranked) = mset (filter (\<lambda>kv. fst kv \<noteq> 0) kvs)"
    by (simp add: image_mset.compositionality comp_def entry_def mk_def)
  then have m: "mset kvs' = mset kvs"
    by (simp add: kvs'_def)
  have nz: "\<forall>r \<in> set ranked. Address r \<noteq> 0"
  proof
    fix r assume "r \<in> set ranked"
    then have "r \<in># image_mset mk (mset (filter (\<lambda>kv. fst kv \<noteq> 0) kvs))"
      using ranked by (metis set_mset_mset)
    then show "Address r \<noteq> 0"
      by (auto simp: mk_def)
  qed
  then have "filter (\<lambda>kv. fst kv \<noteq> 0) (map entry ranked) = map entry ranked"
    by (simp add: entry_def filter_map comp_def)
  then have "rangeLogsMap kvs' [] = map mk (map entry ranked)"
    by (simp add: rangeLogsMap_filter kvs'_def mk_def)
  moreover have "mk (entry r) = r" for r
    by (cases r) (simp add: mk_def entry_def)
  ultimately have c: "rangeLogsMap kvs' [] = ranked"
    by (simp add: comp_def)
  from m assms(2) have "kvs' \<noteq> []"
    by (metis mset_zero_iff)
  then have "SortAddressesByCount kvs' = (Inr ranked :: 'e error + Metric list)"
    using assms(4) by (simp add: SortAddressesByCount_def c sort_Slice_sorted not_less)
  with ranges_mset_iff [OF assms(1) m] show ?thesis
    by blast
qed

section \<open>Properties of the print loop\<close>

lemma printLoop_short:
  "i \<le> length metrics \<Longrightarrow> length metrics < 5 \<Longrightarrow>
   printLoop metrics i out =
     (out @ map (\<lambda>r. AddressUsed (Address r) (Count r)) (drop i metrics),
      IndexOutOfRange (length metrics) (length metrics))"
proof (induction metrics i out rule: printLoop.induct)
  case (1 metrics i out)
  show ?case
  proof (cases "i < length metrics")
    case True
    with 1 show ?thesis
      by (simp add: Cons_nth_drop_Suc [symmetric])
  next
    case False
    with 1 show ?thesis by simp
  qed
qed

lemma printLoop_long:
  "i \<le> 5 \<Longrightarrow> 5 \<le> length metrics \<Longrightarrow>
   printLoop metrics i out =
     (out @ map (\<lambda>r. AddressUsed (Address r) (Count r)) (drop i (take 5 metrics)), Returned)"
proof (induction metrics i out rule: printLoop.induct)
  case (1 metrics i out)
  show ?case
  proof (cases "i < 5")
    case True
    then have "drop i (take 5 metrics) = metrics ! i # drop (Suc i) (take 5 metrics)"
      using 1(3) by (simp add: Cons_nth_drop_Suc [symmetric])
    with True 1 show ?thesis
      by simp
  next
    case False
    with 1 show ?thesis by simp
  qed
qed

section \<open>The example inputs\<close>

lemma isTransfer_example: "isTransfer example_unpack (example_log 1 2) 1 2"
  "isTransfer example_unpack (example_log 2 1) 2 1"
  "isTransfer example_unpack (example_log 1 1) 1 1"
  "isTransfer example_unpack (example_log 0 0) 0 0"
  by (simp_all add: isTransfer_def decode_def HexToAddress_def example_unpack_def example_log_def)

lemma aggregate_example:
  "metric (aggregate example_unpack [example_log 1 2, example_log 2 1, example_log 1 1])
     = [1 \<mapsto> 4, 2 \<mapsto> 2]"
  by (auto simp: aggregate_def loopBody_isTransfer [OF isTransfer_example(1)]
      loopBody_isTransfer [OF isTransfer_example(2)] loopBody_isTransfer [OF isTransfer_example(3)]
      incr_def lookup_def fun_eq_iff)

lemma ranges_example:
  "ranges (metric (aggregate example_unpack [example_log 1 2, example_log 2 1, example_log 1 1]))
     [(2, 2), (1, 4)]"
  by (auto simp: aggregate_example ranges_def fun_eq_iff)

lemma aggregate_example_zero:
  "ranges (metric (aggregate example_unpack [example_log 0 0])) [(0, 2)]"
  by (auto simp: aggregate_def loopBody_isTransfer [OF isTransfer_example(4)]
      incr_def lookup_def fun_eq_iff ranges_def)

section \<open>The claims\<close>

text \<open>
  C1. The zero address never appears in the sequence that \<open>SortAddressesByCount\<close> returns,
  whatever the map holds for it and in whatever order the map is iterated.
\<close>

theorem zero_address_never_ranked:
  assumes "SortAddressesByCount logsMap = Inr ranked"
  shows "\<forall>r \<in> set ranked. Address r \<noteq> 0"
  using assms
  by (auto simp: SortAddressesByCount_def set_sort_Slice rangeLogsMap_filter split: if_splits)

theorem zero_address_never_ranked_witness:
  "SortAddressesByCount [(0, 3), (5, 2), (7, 4)]
     = (Inr [\<lparr>Address = 7, Count = 4\<rparr>, \<lparr>Address = 5, Count = 2\<rparr>] :: unit error + Metric list)
   \<and> 0 \<notin> set (map Address [\<lparr>Address = 7, Count = 4\<rparr>, \<lparr>Address = 5, Count = 2\<rparr>])"
proof -
  have run: "SortAddressesByCount [(0, 3), (5, 2), (7, 4)]
     = (Inr [\<lparr>Address = 7, Count = 4\<rparr>, \<lparr>Address = 5, Count = 2\<rparr>] :: unit error + Metric list)"
    by (simp add: SortAddressesByCount_def sort_Slice_def)
  from zero_address_never_ranked [OF run] run show ?thesis by auto
qed

text \<open>
  C2, as stated, fails: the log of one transfer from the zero address to the zero address
  leaves a map whose only key is the zero address, and for that map the ranking step
  returns the empty sequence and no error.
\<close>

theorem zero_only_map_no_error_counterexample:
  "ranges (metric (aggregate example_unpack [example_log 0 0])) [(0, 2)]
   \<and> SortAddressesByCount [(0, 2)] = (Inr [] :: unit error + Metric list)"
  using aggregate_example_zero by (simp add: SortAddressesByCount_def sort_Slice_def)

text \<open>
  C2, amended. The ranking step returns its error exactly when the map is empty; for every
  non-empty map it returns a sequence, and for a non-empty map without a non-zero address
  that sequence is empty.
\<close>

theorem error_iff_empty_map:
  "(logsMap = [] \<longrightarrow> SortAddressesByCount logsMap = (Inl NoLogsInMap :: 'e error + Metric list))
   \<and> (logsMap \<noteq> [] \<longrightarrow>
        (\<exists>ranked. SortAddressesByCount logsMap = (Inr ranked :: 'e error + Metric list)))
   \<and> (logsMap \<noteq> [] \<and> (\<forall>kv \<in> set logsMap. fst kv = 0) \<longrightarrow>
        SortAddressesByCount logsMap = (Inr [] :: 'e error + Metric list))"
  by (auto simp: SortAddressesByCount_def rangeLogsMap_filter sort_Slice_def filter_empty_conv)

theorem error_iff_empty_map_witness:
  "SortAddressesByCount [] = (Inl NoLogsInMap :: unit error + Metric list)
   \<and> [(0, 2)] \<noteq> ([] :: (address \<times> int) list)
   \<and> fst ((0, 2) :: address \<times> int) = 0
   \<and> SortAddressesByCount [(0, 2)] = (Inr [] :: unit error + Metric list)"
  using error_iff_empty_map [of "[]", where 'e = unit] error_iff_empty_map [of "[(0, 2)]", where 'e = unit]
  by simp

text \<open>
  C3. The sequence that \<open>SortAddressesByCount\<close> returns is in descending order of count:
  at every pair of adjacent indices \<open>i\<close>, \<open>i + 1\<close> the count at \<open>i\<close> is at least the count at \<open>i + 1\<close>.
\<close>

theorem ranked_descending:
  assumes "SortAddressesByCount logsMap = Inr ranked" and "i + 1 < length ranked"
  shows "Count (ranked ! (i + 1)) \<le> Count (ranked ! i)"
proof -
  from assms(1) have "ranked = sort_Slice (\<lambda>a b. Count a > Count b) (rangeLogsMap logsMap [])"
    by (simp add: SortAddressesByCount_def split: if_splits)
  then have "sorted_wrt (\<lambda>a b. Count b \<le> Count a) ranked"
    by (simp add: sorted_sort_Slice)
  with assms(2) show ?thesis
    using sorted_wrt_nth_less [of "\<lambda>a b. Count b \<le> Count a" ranked i "i + 1"] by simp
qed

theorem ranked_descending_witness:
  "SortAddressesByCount [(0, 3), (5, 2), (7, 4)]
     = (Inr [\<lparr>Address = 7, Count = 4\<rparr>, \<lparr>Address = 5, Count = 2\<rparr>] :: unit error + Metric list)
   \<and> (0::nat) + 1 < length [\<lparr>Address = 7, Count = 4\<rparr>, \<lparr>Address = 5, Count = 2\<rparr>]
   \<and> Count ([\<lparr>Address = 7, Count = 4\<rparr>, \<lparr>Address = 5, Count = 2\<rparr>] ! (0 + 1))
       \<le> Count ([\<lparr>Address = 7, Count = 4\<rparr>, \<lparr>Address = 5, Count = 2\<rparr>] ! 0)"
proof -
  have run: "SortAddressesByCount [(0, 3), (5, 2), (7, 4)]
     = (Inr [\<lparr>Address = 7, Count = 4\<rparr>, \<lparr>Address = 5, Count = 2\<rparr>] :: unit error + Metric list)"
    by (simp add: SortAddressesByCount_def sort_Slice_def)
  have len: "(0::nat) + 1 < length [\<lparr>Address = 7, Count = 4\<rparr>, \<lparr>Address = 5, Count = 2\<rparr>]"
    by simp
  from ranked_descending [OF run len] run len show ?thesis by blast
qed

text \<open>
  C4. A well-formed transfer record from \<open>f\<close> to \<open>t\<close> adds 1 to the counter of \<open>f\<close> and 1 to
  the counter of \<open>t\<close>, so a self-transfer adds 2 to one counter. The log set of a transfer from
  \<open>A\<close> to \<open>B\<close>, one from \<open>B\<close> to \<open>A\<close> and one from \<open>A\<close> to \<open>A\<close>, with \<open>A\<close> and \<open>B\<close> distinct and not
  zero, gives the counts \<open>A = 4\<close> and \<open>B = 2\<close>, and the ranked sequence \<open>A\<close> with 4, \<open>B\<close> with 2 in
  every iteration order of the map.
\<close>

theorem transfer_increments_from_and_to:
  "(isTransfer unpack vLog f t \<longrightarrow>
      lookup (metric (loopBody unpack s vLog)) a
        = lookup (metric s) a + (if a = f then 1 else 0) + (if a = t then 1 else 0))
   \<and> (isTransfer unpack vLog f f \<longrightarrow>
      lookup (metric (loopBody unpack s vLog)) f = lookup (metric s) f + 2)
   \<and> (A \<noteq> B \<and> A \<noteq> 0 \<and> B \<noteq> 0 \<and> isTransfer unpack l1 A B \<and> isTransfer unpack l2 B A
        \<and> isTransfer unpack l3 A A \<longrightarrow>
      metric (aggregate unpack [l1, l2, l3]) = [A \<mapsto> 4, B \<mapsto> 2]
      \<and> (\<forall>logsMap. ranges (metric (aggregate unpack [l1, l2, l3])) logsMap \<longrightarrow>
           SortAddressesByCount logsMap
             = (Inr [\<lparr>Address = A, Count = 4\<rparr>, \<lparr>Address = B, Count = 2\<rparr>] :: 'e error + Metric list)))"
proof (intro conjI impI)
  assume "isTransfer unpack vLog f t"
  then show "lookup (metric (loopBody unpack s vLog)) a
        = lookup (metric s) a + (if a = f then 1 else 0) + (if a = t then 1 else 0)"
    by (simp add: loopBody_isTransfer [of unpack vLog f t] lookup_incr)
next
  assume "isTransfer unpack vLog f f"
  then show "lookup (metric (loopBody unpack s vLog)) f = lookup (metric s) f + 2"
    by (simp add: loopBody_isTransfer [of unpack vLog f f] lookup_incr)
next
  assume h: "A \<noteq> B \<and> A \<noteq> 0 \<and> B \<noteq> 0 \<and> isTransfer unpack l1 A B \<and> isTransfer unpack l2 B A
        \<and> isTransfer unpack l3 A A"
  then have ne: "A \<noteq> B" "A \<noteq> 0" "B \<noteq> 0"
    and l1: "isTransfer unpack l1 A B" and l2: "isTransfer unpack l2 B A"
    and l3: "isTransfer unpack l3 A A"
    by simp_all
  have i1: "incr (incr Map.empty A) B = [A \<mapsto> 1, B \<mapsto> 1]"
    using ne(1) by (simp add: incr_def lookup_def)
  have i2: "incr (incr [A \<mapsto> 1, B \<mapsto> 1] B) A = [A \<mapsto> 2, B \<mapsto> 2]"
    using ne(1) by (auto simp: incr_def lookup_def fun_eq_iff)
  have i3: "incr (incr [A \<mapsto> 2, B \<mapsto> 2] A) A = [A \<mapsto> 4, B \<mapsto> 2]"
    using ne(1) by (auto simp: incr_def lookup_def fun_eq_iff)
  show m: "metric (aggregate unpack [l1, l2, l3]) = [A \<mapsto> 4, B \<mapsto> 2]"
    by (simp add: aggregate_def loopBody_isTransfer [OF l1] loopBody_isTransfer [OF l2]
        loopBody_isTransfer [OF l3] i1 i2 i3)
  show "\<forall>logsMap. ranges (metric (aggregate unpack [l1, l2, l3])) logsMap \<longrightarrow>
           SortAddressesByCount logsMap
             = (Inr [\<lparr>Address = A, Count = 4\<rparr>, \<lparr>Address = B, Count = 2\<rparr>] :: 'e error + Metric list)"
  proof (intro allI impI)
    fix logsMap assume "ranges (metric (aggregate unpack [l1, l2, l3])) logsMap"
    then have r: "ranges [A \<mapsto> 4, B \<mapsto> 2] logsMap"
      by (simp add: m)
    have "ranges [A \<mapsto> 4, B \<mapsto> 2] [(A, 4), (B, 2)]"
      using ne(1) by (auto simp: ranges_def fun_eq_iff)
    from ranges_mset [OF r this] have "mset logsMap = {#(A, 4), (B, 2)#}"
      by simp
    then have "logsMap = [(A, 4), (B, 2)] \<or> logsMap = [(B, 2), (A, 4)]"
      by (rule mset_pair)
    with ne show "SortAddressesByCount logsMap
             = (Inr [\<lparr>Address = A, Count = 4\<rparr>, \<lparr>Address = B, Count = 2\<rparr>] :: 'e error + Metric list)"
      by (auto simp: SortAddressesByCount_def sort_Slice_def)
  qed
qed

theorem transfer_increments_from_and_to_witness:
  "isTransfer example_unpack (example_log 1 1) 1 1
   \<and> lookup (metric (loopBody example_unpack \<lparr>metric = Map.empty, printed = []\<rparr> (example_log 1 1))) 1 = 2
   \<and> (1 :: address) \<noteq> 2 \<and> (1 :: address) \<noteq> 0 \<and> (2 :: address) \<noteq> 0
   \<and> isTransfer example_unpack (example_log 1 2) 1 2
   \<and> isTransfer example_unpack (example_log 2 1) 2 1
   \<and> metric (aggregate example_unpack [example_log 1 2, example_log 2 1, example_log 1 1])
       = [1 \<mapsto> 4, 2 \<mapsto> 2]
   \<and> ranges (metric (aggregate example_unpack [example_log 1 2, example_log 2 1, example_log 1 1]))
       [(2, 2), (1, 4)]
   \<and> SortAddressesByCount [(2, 2), (1, 4)]
       = (Inr [\<lparr>Address = 1, Count = 4\<rparr>, \<lparr>Address = 2, Count = 2\<rparr>] :: unit error + Metric list)"
  using transfer_increments_from_and_to [where unpack = example_unpack
      and vLog = "example_log 1 1" and f = 1 and t = 1 and a = 1
      and s = "\<lparr>metric = Map.empty, printed = []\<rparr>"
      and A = 1 and B = 2 and ?l1.0 = "example_log 1 2" and ?l2.0 = "example_log 2 1"
      and ?l3.0 = "example_log 1 1", where ?'e = unit]
    isTransfer_example ranges_example
  by (simp add: lookup_def)

text \<open>
  C5. A log entry whose number of topics is not 3 or whose data payload is empty changes
  nothing: the state after the loop (the counts, and what was printed) is the same with
  and without the entry, wherever it stands in the list, and the same as for the list
  with all such entries removed.
\<close>

theorem malformed_entries_not_counted:
  "(length (Topics vLog) \<noteq> 3 \<or> length (Data vLog) = 0 \<longrightarrow>
      aggregate unpack (xs @ vLog # ys) = aggregate unpack (xs @ ys))
   \<and> aggregate unpack (filter (\<lambda>l. length (Topics l) = 3 \<and> length (Data l) \<noteq> 0) logs)
       = aggregate unpack logs"
proof
  show "length (Topics vLog) \<noteq> 3 \<or> length (Data vLog) = 0 \<longrightarrow>
      aggregate unpack (xs @ vLog # ys) = aggregate unpack (xs @ ys)"
    by (simp add: aggregate_def rangeLogs_append loopBody_malformed)
next
  have "rangeLogs unpack s (filter (\<lambda>l. length (Topics l) = 3 \<and> length (Data l) \<noteq> 0) logs)
          = rangeLogs unpack s logs" for s
    by (induction logs arbitrary: s) (simp_all add: loopBody_malformed)
  then show "aggregate unpack (filter (\<lambda>l. length (Topics l) = 3 \<and> length (Data l) \<noteq> 0) logs)
       = aggregate unpack logs"
    by (simp add: aggregate_def)
qed

theorem malformed_entries_not_counted_witness:
  "length (Topics \<lparr>Topics = [9, 1], Data = replicate 32 0\<rparr>) \<noteq> 3
   \<and> aggregate example_unpack
         ([example_log 1 2] @ \<lparr>Topics = [9, 1], Data = replicate 32 0\<rparr> # [example_log 2 1])
       = aggregate example_unpack ([example_log 1 2] @ [example_log 2 1])"
  using malformed_entries_not_counted [where vLog = "\<lparr>Topics = [9, 1], Data = replicate 32 0\<rparr>"
      and unpack = example_unpack and xs = "[example_log 1 2]" and ys = "[example_log 2 1]"]
  by simp




text \<open>
  C7. A log entry with three topics and a non-empty payload whose payload fails to decode
  is logged and skipped: the loop body adds the message and leaves the map as it is, the
  entries after it are processed, the counts are those of the list without the entry, and
  \<open>currentBlock\<close> returns what it returns for the list without the entry.
\<close>

theorem unpack_error_is_skipped:
  assumes "length (Topics vLog) = 3" and "length (Data vLog) \<noteq> 0"
    and "unpack (Data vLog) = Inl err"
  shows "loopBody unpack s vLog = s\<lparr>printed := printed s @ [ErrorUnpacking err]\<rparr>
    \<and> metric (aggregate unpack (xs @ vLog # ys)) = metric (aggregate unpack (xs @ ys))
    \<and> printed (aggregate unpack (xs @ vLog # ys))
        = printed (aggregate unpack xs) @ [ErrorUnpacking err] @ printed (aggregate unpack ys)
    \<and> (HeaderByNumber E = Inr head \<and> abi_JSON E = Inr unpack
         \<and> FilterLogs E (query E head) = Inr (xs @ vLog # ys) \<longrightarrow>
        snd (currentBlock E) = snd (currentBlock (E\<lparr>FilterLogs := \<lambda>q. Inr (xs @ ys)\<rparr>)))"
proof -
  have body: "loopBody unpack s vLog = s\<lparr>printed := printed s @ [ErrorUnpacking err]\<rparr>" for s
    using assms by (simp add: loopBody_unpack_error)
  have "metric (rangeLogs unpack (loopBody unpack (aggregate unpack xs) vLog) ys)
          = metric (rangeLogs unpack (aggregate unpack xs) ys)"
    by (rule metric_rangeLogs_cong) (simp add: body)
  then have m: "metric (aggregate unpack (xs @ vLog # ys)) = metric (aggregate unpack (xs @ ys))"
    by (simp add: aggregate_def rangeLogs_append)
  have p: "printed (aggregate unpack (xs @ vLog # ys))
           = printed (aggregate unpack xs) @ [ErrorUnpacking err] @ printed (aggregate unpack ys)"
    using printed_rangeLogs [of unpack "loopBody unpack (aggregate unpack xs) vLog" ys]
    by (simp add: aggregate_def rangeLogs_append body)
  have "HeaderByNumber E = Inr head \<and> abi_JSON E = Inr unpack
         \<and> FilterLogs E (query E head) = Inr (xs @ vLog # ys) \<longrightarrow>
         snd (currentBlock E) = snd (currentBlock (E\<lparr>FilterLogs := \<lambda>q. Inr (xs @ ys)\<rparr>))"
    by (simp add: currentBlock_def Let_def m)
  with body m p show ?thesis
    by blast
qed

theorem unpack_error_is_skipped_witness:
  "length (Topics \<lparr>Topics = [9, 1, 2], Data = [7]\<rparr>) = 3
   \<and> length (Data \<lparr>Topics = [9, 1, 2], Data = [7]\<rparr>) \<noteq> 0
   \<and> example_unpack (Data \<lparr>Topics = [9, 1, 2], Data = [7]\<rparr>) = Inl ()
   \<and> loopBody example_unpack \<lparr>metric = Map.empty, printed = []\<rparr> \<lparr>Topics = [9, 1, 2], Data = [7]\<rparr>
       = \<lparr>metric = Map.empty, printed = [ErrorUnpacking ()]\<rparr>
   \<and> metric (aggregate example_unpack
         ([example_log 1 2] @ \<lparr>Topics = [9, 1, 2], Data = [7]\<rparr> # [example_log 2 1]))
       = metric (aggregate example_unpack ([example_log 1 2] @ [example_log 2 1]))
   \<and> snd (currentBlock (example_env
         ([example_log 1 2] @ \<lparr>Topics = [9, 1, 2], Data = [7]\<rparr> # [example_log 2 1])
         [(1, 2), (2, 2)]))
       = snd (currentBlock ((example_env
         ([example_log 1 2] @ \<lparr>Topics = [9, 1, 2], Data = [7]\<rparr> # [example_log 2 1])
         [(1, 2), (2, 2)])\<lparr>FilterLogs := \<lambda>q. Inr ([example_log 1 2] @ [example_log 2 1])\<rparr>))"
  using unpack_error_is_skipped [where vLog = "\<lparr>Topics = [9, 1, 2], Data = [7]\<rparr>"
      and unpack = example_unpack and err = "()" and xs = "[example_log 1 2]"
      and ys = "[example_log 2 1]" and s = "\<lparr>metric = Map.empty, printed = []\<rparr>"
      and head = 1000
      and E = "example_env
         ([example_log 1 2] @ \<lparr>Topics = [9, 1, 2], Data = [7]\<rparr> # [example_log 2 1])
         [(1, 2), (2, 2)]"]
  by (simp add: example_unpack_def example_env_def)

text \<open>
  C8. The print step reads the indices 0 to 4 of the ranked result. With fewer than 5
  entries (the nil result beside an error among them) it prints the entries there are and
  then fails with an index out of range; with at least 5 entries it prints the first 5, in
  order, and returns.
\<close>

theorem print_step_needs_five:
  "(length metrics < 5 \<longrightarrow>
      printLoop metrics 0 out =
        (out @ map (\<lambda>r. AddressUsed (Address r) (Count r)) metrics,
         IndexOutOfRange (length metrics) (length metrics)))
   \<and> (5 \<le> length metrics \<longrightarrow>
      printLoop metrics 0 out =
        (out @ map (\<lambda>r. AddressUsed (Address r) (Count r)) (take 5 metrics), Returned))
   \<and> (snd (currentBlock E) = Inl err \<longrightarrow>
      report E = (fst (currentBlock E) @ [ErrorInCurrentBlock err], IndexOutOfRange 0 0))
   \<and> (snd (currentBlock E) = Inr metrics \<longrightarrow>
      report E = printLoop metrics 0 (fst (currentBlock E)))"
  using printLoop_short [of 0 metrics out] printLoop_long [of 0 metrics out]
    printLoop_short [of 0 "[]" "fst (currentBlock E) @ [ErrorInCurrentBlock err]"]
  by (auto simp: report_def split: prod.splits)

theorem print_step_needs_five_witness:
  "length [\<lparr>Address = 1, Count = 4\<rparr>, \<lparr>Address = 2, Count = 2\<rparr>] < 5
   \<and> printLoop [\<lparr>Address = 1, Count = 4\<rparr>, \<lparr>Address = 2, Count = 2\<rparr>] 0 ([] :: unit event list)
       = ([AddressUsed 1 4, AddressUsed 2 2], IndexOutOfRange 2 2)
   \<and> snd (currentBlock (example_env [] [])) = Inl NoLogsInMap
   \<and> report (example_env [] []) = ([ErrorInCurrentBlock NoLogsInMap], IndexOutOfRange 0 0)
   \<and> 5 \<le> length [\<lparr>Address = 1, Count = 9\<rparr>, \<lparr>Address = 2, Count = 8\<rparr>, \<lparr>Address = 3, Count = 7\<rparr>,
                   \<lparr>Address = 4, Count = 6\<rparr>, \<lparr>Address = 5, Count = 5\<rparr>, \<lparr>Address = 6, Count = 4\<rparr>]
   \<and> printLoop [\<lparr>Address = 1, Count = 9\<rparr>, \<lparr>Address = 2, Count = 8\<rparr>, \<lparr>Address = 3, Count = 7\<rparr>,
                 \<lparr>Address = 4, Count = 6\<rparr>, \<lparr>Address = 5, Count = 5\<rparr>, \<lparr>Address = 6, Count = 4\<rparr>]
        0 ([] :: unit event list)
       = ([AddressUsed 1 9, AddressUsed 2 8, AddressUsed 3 7, AddressUsed 4 6, AddressUsed 5 5],
          Returned)"
proof -
  have e: "currentBlock (example_env [] []) = ([], Inl NoLogsInMap)"
    by (simp add: currentBlock_def example_env_def aggregate_def SortAddressesByCount_def)
  from print_step_needs_five [where metrics = "[\<lparr>Address = 1, Count = 4\<rparr>, \<lparr>Address = 2, Count = 2\<rparr>]"
      and out = "[] :: unit event list" and E = "example_env [] []" and err = NoLogsInMap]
  have short: "printLoop [\<lparr>Address = 1, Count = 4\<rparr>, \<lparr>Address = 2, Count = 2\<rparr>] 0 ([] :: unit event list)
       = ([AddressUsed 1 4, AddressUsed 2 2], IndexOutOfRange 2 2)"
    and err: "report (example_env [] []) = ([ErrorInCurrentBlock NoLogsInMap], IndexOutOfRange 0 0)"
    by (simp_all add: e)
  from print_step_needs_five [where metrics = "[\<lparr>Address = 1, Count = 9\<rparr>, \<lparr>Address = 2, Count = 8\<rparr>,
        \<lparr>Address = 3, Count = 7\<rparr>, \<lparr>Address = 4, Count = 6\<rparr>, \<lparr>Address = 5, Count = 5\<rparr>,
        \<lparr>Address = 6, Count = 4\<rparr>]" and out = "[] :: unit event list"]
  have long: "printLoop [\<lparr>Address = 1, Count = 9\<rparr>, \<lparr>Address = 2, Count = 8\<rparr>, \<lparr>Address = 3, Count = 7\<rparr>,
                 \<lparr>Address = 4, Count = 6\<rparr>, \<lparr>Address = 5, Count = 5\<rparr>, \<lparr>Address = 6, Count = 4\<rparr>]
        0 ([] :: unit event list)
       = ([AddressUsed 1 9, AddressUsed 2 8, AddressUsed 3 7, AddressUsed 4 6, AddressUsed 5 5],
          Returned)"
    by simp
  from short err long e show ?thesis
    by simp
qed

text \<open>
  C9. The counts are a function of the logs alone. Two runs over the same logs, whatever
  the order in which each iterates over the map, both fail on the empty map or both
  return sequences with the same entries (each non-zero address of the map once, with its
  count) and the same sequence of counts: they differ at most in the order of entries with
  equal counts.
\<close>

theorem counts_independent_of_iteration_order:
  assumes "ranges (metric (aggregate unpack logs)) kvs1"
    and "ranges (metric (aggregate unpack logs)) kvs2"
  shows "(SortAddressesByCount kvs1 = (Inl NoLogsInMap :: 'e error + Metric list)
          \<and> SortAddressesByCount kvs2 = (Inl NoLogsInMap :: 'e error + Metric list))
       \<or> (\<exists>ranked1 ranked2.
            SortAddressesByCount kvs1 = (Inr ranked1 :: 'e error + Metric list)
          \<and> SortAddressesByCount kvs2 = (Inr ranked2 :: 'e error + Metric list)
          \<and> mset ranked1 = mset ranked2
          \<and> map Count ranked1 = map Count ranked2
          \<and> (\<forall>r. r \<in> set ranked1 \<longleftrightarrow>
                Address r \<noteq> 0 \<and> metric (aggregate unpack logs) (Address r) = Some (Count r)))"
proof (cases "kvs1 = []")
  case True
  with ranges_mset [OF assms] have "mset kvs2 = {#}"
    by simp
  then have "kvs2 = []"
    by simp
  with True show ?thesis
    by (simp add: SortAddressesByCount_def)
next
  case False
  have ne2: "kvs2 \<noteq> []"
  proof
    assume "kvs2 = []"
    with ranges_mset [OF assms] have "mset kvs1 = {#}"
      by simp
    with False show False
      by simp
  qed
  define ranked1 where "ranked1 = sort_Slice (\<lambda>a b. Count a > Count b) (rangeLogsMap kvs1 [])"
  define ranked2 where "ranked2 = sort_Slice (\<lambda>a b. Count a > Count b) (rangeLogsMap kvs2 [])"
  have r1: "SortAddressesByCount kvs1 = (Inr ranked1 :: 'e error + Metric list)"
    using False by (simp add: SortAddressesByCount_def ranked1_def)
  have r2: "SortAddressesByCount kvs2 = (Inr ranked2 :: 'e error + Metric list)"
    using ne2 by (simp add: SortAddressesByCount_def ranked2_def)
  have m: "mset ranked1 = mset ranked2"
    using mset_counters [OF ranges_mset [OF assms]]
    by (simp add: ranked1_def ranked2_def mset_sort_Slice)
  have c: "map Count ranked1 = map Count ranked2"
    using m by (rule sorted_desc_counts_eq) (simp_all add: ranked1_def ranked2_def sorted_sort_Slice)
  have "\<forall>r. r \<in> set ranked1 \<longleftrightarrow>
          Address r \<noteq> 0 \<and> metric (aggregate unpack logs) (Address r) = Some (Count r)"
    using ranked_set [OF assms(1) r1] by simp
  with r1 r2 m c show ?thesis by blast
qed

theorem counts_independent_of_iteration_order_witness:
  "ranges (metric (aggregate example_unpack [example_log 1 2])) [(1, 1), (2, 1)]
   \<and> ranges (metric (aggregate example_unpack [example_log 1 2])) [(2, 1), (1, 1)]
   \<and> SortAddressesByCount [(1, 1), (2, 1)]
       = (Inr [\<lparr>Address = 1, Count = 1\<rparr>, \<lparr>Address = 2, Count = 1\<rparr>] :: unit error + Metric list)
   \<and> SortAddressesByCount [(2, 1), (1, 1)]
       = (Inr [\<lparr>Address = 2, Count = 1\<rparr>, \<lparr>Address = 1, Count = 1\<rparr>] :: unit error + Metric list)
   \<and> mset [\<lparr>Address = 1, Count = 1\<rparr>, \<lparr>Address = 2, Count = 1\<rparr>]
       = mset [\<lparr>Address = 2, Count = 1\<rparr>, \<lparr>Address = 1, Count = 1\<rparr>]
   \<and> map Count [\<lparr>Address = 1, Count = 1\<rparr>, \<lparr>Address = 2, Count = 1\<rparr>]
       = map Count [\<lparr>Address = 2, Count = 1\<rparr>, \<lparr>Address = 1, Count = 1\<rparr>]"
proof -
  have m: "metric (aggregate example_unpack [example_log 1 2]) = [1 \<mapsto> 1, 2 \<mapsto> 1]"
    by (simp add: aggregate_def loopBody_isTransfer [OF isTransfer_example(1)] incr_def lookup_def)
  have r1: "ranges (metric (aggregate example_unpack [example_log 1 2])) [(1, 1), (2, 1)]"
    by (auto simp: m ranges_def fun_eq_iff)
  have r2: "ranges (metric (aggregate example_unpack [example_log 1 2])) [(2, 1), (1, 1)]"
    by (auto simp: m ranges_def fun_eq_iff)
  have s1: "SortAddressesByCount [(1, 1), (2, 1)]
       = (Inr [\<lparr>Address = 1, Count = 1\<rparr>, \<lparr>Address = 2, Count = 1\<rparr>] :: unit error + Metric list)"
    by (simp add: SortAddressesByCount_def sort_Slice_def)
  have s2: "SortAddressesByCount [(2, 1), (1, 1)]
       = (Inr [\<lparr>Address = 2, Count = 1\<rparr>, \<lparr>Address = 1, Count = 1\<rparr>] :: unit error + Metric list)"
    by (simp add: SortAddressesByCount_def sort_Slice_def)
  from counts_independent_of_iteration_order [OF r1 r2, where ?'e = unit] r1 r2 s1 s2
  show ?thesis
    by simp
qed

text \<open>
  C10. Every entry of the sequence that \<open>SortAddressesByCount\<close> returns for the map built by
  the decode loop has a count of at least 1.
\<close>

theorem ranked_counts_positive:
  assumes "ranges (metric (aggregate unpack logs)) logsMap"
    and "SortAddressesByCount logsMap = Inr ranked"
  shows "\<forall>r \<in> set ranked. 1 \<le> Count r"
proof
  fix r assume "r \<in> set ranked"
  then have "metric (aggregate unpack logs) (Address r) = Some (Count r)"
    using ranked_set [OF assms] by simp
  then show "1 \<le> Count r"
    using positive_aggregate [of unpack logs] by (simp add: positive_def)
qed

theorem ranked_counts_positive_witness:
  "ranges (metric (aggregate example_unpack [example_log 1 2, example_log 2 1, example_log 1 1]))
     [(2, 2), (1, 4)]
   \<and> SortAddressesByCount [(2, 2), (1, 4)]
       = (Inr [\<lparr>Address = 1, Count = 4\<rparr>, \<lparr>Address = 2, Count = 2\<rparr>] :: unit error + Metric list)
   \<and> list_all (\<lambda>r. 1 \<le> Count r) [\<lparr>Address = 1, Count = 4\<rparr>, \<lparr>Address = 2, Count = 2\<rparr>]"
proof -
  have s: "SortAddressesByCount [(2, 2), (1, 4)]
       = (Inr [\<lparr>Address = 1, Count = 4\<rparr>, \<lparr>Address = 2, Count = 2\<rparr>] :: unit error + Metric list)"
    by (simp add: SortAddressesByCount_def sort_Slice_def)
  from ranked_counts_positive [OF ranges_example s] ranges_example s show ?thesis
    by simp
qed

end
